theory Spec2Isabelle
  imports Complex_Main "HOL-Library.Sublist"
begin

section \<open>The BOM filter tool (TransmittalListMakerRev1.py)\<close>

text \<open>
  The program lists the PDF files of a directory, reads a bill-of-materials sheet, and
  writes a copy of the sheet that keeps only the rows whose part number has a PDF.
  Its two functions, \<open>get_pdf_file_list\<close> and \<open>filter_bom_with_pdf_list\<close>, are
  embedded below; the Tk form around them only calls the second one.

  Python strings are sequences of code points. A \<^typ>\<open>char\<close> stands for a code point
  below 256 here, so a \<^typ>\<open>string\<close> is a Python \<open>str\<close> over Latin-1.
\<close>

subsection \<open>String methods\<close>

definition CR :: char where
  "CR = CHR 0x0D"

definition LF :: char where
  "LF = CHR 0x0A"

definition isspace :: "char \<Rightarrow> bool" where
  \<comment> \<open>The characters \<open>str.strip()\<close> removes: tab to carriage return, the four
      separators 0x1C to 0x1F, the space, NEL and the no-break space.\<close>
  "isspace c =
     (let n = (of_char c :: nat)
      in (9 \<le> n \<and> n \<le> 13) \<or> (28 \<le> n \<and> n \<le> 32) \<or> n = 133 \<or> n = 160)"

definition strip :: "string \<Rightarrow> string" where
  \<comment> \<open>\<open>s.strip()\<close>\<close>
  "strip s = rev (dropWhile isspace (rev (dropWhile isspace s)))"

definition replace_char :: "char \<Rightarrow> string \<Rightarrow> string" where
  \<comment> \<open>\<open>s.replace(c, '')\<close> for a one-character \<open>c\<close>\<close>
  "replace_char c s = filter (\<lambda>d. d \<noteq> c) s"

definition startswith :: "string \<Rightarrow> string \<Rightarrow> bool" where
  \<comment> \<open>\<open>s.startswith(p)\<close>\<close>
  "startswith s p = (take (length p) s = p)"

definition endswith :: "string \<Rightarrow> string \<Rightarrow> bool" where
  \<comment> \<open>\<open>s.endswith(p)\<close>\<close>
  "endswith s p = (length p \<le> length s \<and> drop (length s - length p) s = p)"

definition lower_char :: "char \<Rightarrow> char" where
  \<comment> \<open>\<open>str.lower\<close> on one code point below 256: the ASCII capitals and the Latin-1
      capitals 0xC0 to 0xDE (0xD7, the multiplication sign, is not a letter).\<close>
  "lower_char c =
     (let n = (of_char c :: nat)
      in if (65 \<le> n \<and> n \<le> 90) \<or> (192 \<le> n \<and> n \<le> 222 \<and> n \<noteq> 215)
         then char_of (n + 32) else c)"

definition lower :: "string \<Rightarrow> string" where
  "lower s = map lower_char s"

subsection \<open>Cells and part-number normalisation\<close>

text \<open>
  A cell of the sheet as \<open>pandas\<close> hands it to the program: missing (\<open>NaN\<close>), or a value.
  The program only ever applies \<open>str\<close> to a part number, so a value is represented by
  the text \<open>str\<close> gives for it.
\<close>

datatype cell = NaN | Text string

fun normalize_part_number :: "cell \<Rightarrow> string" where
  "normalize_part_number NaN = []"
| "normalize_part_number (Text part_no) = strip (replace_char LF (replace_char CR part_no))"

subsection \<open>Path functions\<close>

text \<open>
  The functions of \<open>os.path\<close> the program calls, as \<open>posixpath\<close> defines them: the
  separator is the slash, there is no alternative separator.
\<close>

definition sep :: char where
  "sep = CHR ''/''"

definition extsep :: char where
  "extsep = CHR ''.''"

definition rfind :: "string \<Rightarrow> char \<Rightarrow> int" where
  \<comment> \<open>\<open>p.rfind(c)\<close>: the index of the last \<open>c\<close>, \<open>-1\<close> when there is none\<close>
  "rfind p c = int (length p - length (takeWhile (\<lambda>d. d \<noteq> c) (rev p))) - 1"

function splitext_loop :: "string \<Rightarrow> nat \<Rightarrow> nat \<Rightarrow> string \<times> string" where
  \<comment> \<open>the \<open>while\<close> loop of \<open>genericpath._splitext\<close>, which skips leading dots\<close>
  "splitext_loop p dotIndex filenameIndex =
     (if filenameIndex < dotIndex
      then if take 1 (drop filenameIndex p) \<noteq> [extsep]
           then (take dotIndex p, drop dotIndex p)
           else splitext_loop p dotIndex (filenameIndex + 1)
      else (p, []))"
  by pat_completeness auto
termination
  by (relation "measure (\<lambda>(p, dotIndex, filenameIndex). dotIndex - filenameIndex)") auto

definition splitext :: "string \<Rightarrow> string \<times> string" where
  \<comment> \<open>\<open>os.path.splitext(p)\<close>\<close>
  "splitext p =
     (let sepIndex = rfind p sep;
          dotIndex = rfind p extsep
      in if dotIndex > sepIndex
         then splitext_loop p (nat dotIndex) (nat (sepIndex + 1))
         else (p, []))"

definition basename :: "string \<Rightarrow> string" where
  \<comment> \<open>\<open>os.path.basename(p)\<close>\<close>
  "basename p = (let i = nat (rfind p sep + 1) in drop i p)"

definition dirname :: "string \<Rightarrow> string" where
  \<comment> \<open>\<open>os.path.dirname(p)\<close>: the head up to the last slash, its trailing slashes removed
      unless it consists of slashes only\<close>
  "dirname p =
     (let i = nat (rfind p sep + 1);
          head = take i p
      in if head \<noteq> [] \<and> head \<noteq> replicate (length head) sep
         then rev (dropWhile (\<lambda>c. c = sep) (rev head))
         else head)"

definition join :: "string \<Rightarrow> string \<Rightarrow> string" where
  \<comment> \<open>\<open>os.path.join(a, b)\<close>\<close>
  "join a b =
     (if startswith b [sep] then b
      else if a = [] \<or> endswith a [sep] then a @ b
      else a @ [sep] @ b)"

subsection \<open>Listing the PDF files\<close>

datatype error = OSError | KeyError | ZeroDivisionError

text \<open>
  A directory entry is its name and what \<open>os.path.isfile\<close> answers for it. What
  \<open>os.listdir\<close> returns is the list of entries, or the exception it raises.
\<close>

type_synonym dir_entry = "string \<times> bool"

fun pdf_loop :: "dir_entry list \<Rightarrow> string list" where
  \<comment> \<open>the \<open>for item in os.listdir(...)\<close> loop; the result is \<open>file_list\<close>\<close>
  "pdf_loop [] = []"
| "pdf_loop ((item, is_file) # items) =
     (if is_file \<and> endswith (lower item) ''.pdf''
      then fst (splitext item) # pdf_loop items
      else pdf_loop items)"

fun get_pdf_file_list :: "error + dir_entry list \<Rightarrow> string list" where
  "get_pdf_file_list (Inr items) = pdf_loop items"
| "get_pdf_file_list (Inl e) = []"

subsection \<open>The keep set\<close>

text \<open>
  A Python \<open>set\<close> that the program iterates over is a duplicate-free list here, in
  insertion order; Python fixes no order, and \<open>keep_part_loop_member\<close> below shows that
  the one place that iterates does not depend on it.
\<close>

definition set_add :: "'a \<Rightarrow> 'a list \<Rightarrow> 'a list" where
  \<comment> \<open>\<open>s.add(x)\<close>\<close>
  "set_add x s = (if x \<in> set s then s else s @ [x])"

fun keep_loop :: "string list \<Rightarrow> string list \<Rightarrow> string list" where
  \<comment> \<open>the \<open>for part in pdf_files\<close> loop that fills \<open>all_parts_to_keep\<close>\<close>
  "keep_loop [] keep = keep"
| "keep_loop (part # parts) keep =
     (let keep1 = set_add part keep
      in keep_loop parts
           (if startswith part ''VG-''
            then set_add (drop 3 part) keep1
            else set_add (''VG-'' @ part) keep1))"

definition all_parts_to_keep :: "string list \<Rightarrow> string list" where
  "all_parts_to_keep pdf_files = keep_loop pdf_files []"

subsection \<open>Rows\<close>

text \<open>
  A row of the sheet: the two columns the program names, and the others. The program
  adds the column \<open>Normalized_Part_No\<close> to the frame, which extends the record.
\<close>

record bom_row =
  PART_No :: cell
  DESCRIPTION :: cell
  other_columns :: "cell list"

record nrow = bom_row +
  Normalized_Part_No :: string

definition add_normalized :: "bom_row \<Rightarrow> nrow" where
  \<comment> \<open>\<open>df['Normalized_Part_No'] = df['PART No.'].apply(normalize_part_number)\<close>, per row\<close>
  "add_normalized r =
     \<lparr>PART_No = PART_No r, DESCRIPTION = DESCRIPTION r, other_columns = other_columns r,
      Normalized_Part_No = normalize_part_number (PART_No r)\<rparr>"

definition drop_normalized :: "nrow \<Rightarrow> bom_row" where
  \<comment> \<open>\<open>filtered_df.drop(columns=['Normalized_Part_No'])\<close>, per row\<close>
  "drop_normalized r =
     \<lparr>PART_No = PART_No r, DESCRIPTION = DESCRIPTION r, other_columns = other_columns r\<rparr>"

definition excel_part_numbers :: "nrow list \<Rightarrow> string set" where
  \<comment> \<open>\<open>set(df['Normalized_Part_No'].dropna().unique())\<close>; no normalised key is missing\<close>
  "excel_part_numbers df = set (map Normalized_Part_No df)"

subsection \<open>Missing parts\<close>

definition is_missing :: "string set \<Rightarrow> string \<Rightarrow> bool" where
  \<comment> \<open>the condition of lines 108 to 112, as written\<close>
  "is_missing excel part =
     (part \<notin> excel
      \<and> (\<not> startswith part ''VG-'' \<or> drop 3 part \<notin> excel)
      \<and> (\<not> startswith part ''VG-'' \<or> (''VG-'' @ part) \<notin> excel))"

definition missing_parts :: "string set \<Rightarrow> string list \<Rightarrow> string list" where
  "missing_parts excel pdf_files = filter (is_missing excel) pdf_files"

subsection \<open>Removing duplicates\<close>

fun drop_duplicates_loop :: "('r \<Rightarrow> 'k) \<Rightarrow> 'k set \<Rightarrow> 'r list \<Rightarrow> 'r list" where
  "drop_duplicates_loop key seen [] = []"
| "drop_duplicates_loop key seen (r # rs) =
     (if key r \<in> seen then drop_duplicates_loop key seen rs
      else r # drop_duplicates_loop key (insert (key r) seen) rs)"

definition drop_duplicates :: "('r \<Rightarrow> 'k) \<Rightarrow> 'r list \<Rightarrow> 'r list" where
  \<comment> \<open>\<open>df.drop_duplicates(subset=[column], keep='first')\<close>: a row goes when an earlier
      row has the same value in the column\<close>
  "drop_duplicates key df = drop_duplicates_loop key {} df"

subsection \<open>Filtering\<close>

fun keep_part_loop :: "string \<Rightarrow> string list \<Rightarrow> bool" where
  \<comment> \<open>the \<open>for keep_part in all_parts_to_keep\<close> loop of \<open>should_keep_row\<close>\<close>
  "keep_part_loop part_no [] = False"
| "keep_part_loop part_no (keep_part # keep) =
     (if part_no = keep_part then True
      else if startswith part_no ''VG-'' \<and> drop 3 part_no = keep_part then True
      else keep_part_loop part_no keep)"

definition should_keep_row :: "string list \<Rightarrow> nrow \<Rightarrow> bool" where
  "should_keep_row keep row =
     (let part_no = Normalized_Part_No row
      in if part_no = [] then False else keep_part_loop part_no keep)"

definition filter_rows :: "string list \<Rightarrow> nrow list \<Rightarrow> nrow list" where
  \<comment> \<open>\<open>df_no_dupes[df_no_dupes.apply(should_keep_row, axis=1)]\<close>\<close>
  "filter_rows keep df_no_dupes = filter (should_keep_row keep) df_no_dupes"

subsection \<open>The summary\<close>

definition percentage_kept :: "nat \<Rightarrow> nat \<Rightarrow> error + rat" where
  \<comment> \<open>\<open>filtered_row_count/original_row_count*100\<close>. Python divides two \<open>int\<close>s into a
      float and raises on a zero divisor; the value is only printed, and stands here as
      the exact quotient.\<close>
  "percentage_kept filtered_row_count original_row_count =
     (if original_row_count = 0 then Inl ZeroDivisionError
      else Inr (Fract (int filtered_row_count) (int original_row_count) * 100))"

subsection \<open>The run\<close>

text \<open>
  What the run meets outside the program: the directory listing, the sheet
  \<open>pd.read_excel\<close> returns, and whether each file operation succeeds (\<open>None\<close>) or raises.
  A sheet without the column \<open>PART No.\<close> or \<open>DESCRIPTION\<close> raises \<open>KeyError\<close> at line
  99 or 150, inside the same \<open>try\<close> and before anything but the temporary file is
  written, as a failed read does: both are the \<open>Inl\<close> of \<open>read_excel\<close>. A write that
  raises is taken to leave no file.
\<close>

record world =
  listdir :: "error + dir_entry list"
  open_temp_json :: "error option"
  read_excel :: "error + bom_row list"
  to_excel :: "error option"
  remove_temp :: "error option"

datatype file_content =
    PdfListJson "string list" nat string
  | Workbook "(cell \<times> cell) list"

datatype fs_event = Wrote string file_content | Removed string

definition filter_bom_body ::
  "world \<Rightarrow> string \<Rightarrow> string \<Rightarrow> (error + bool \<times> string list) \<times> fs_event list" where
  \<comment> \<open>the body of the \<open>try\<close>: what it returns or raises, and the file operations done
      by then, in order\<close>
  "filter_bom_body w excel_file_path pdf_directory_path =
     (let pdf_files = get_pdf_file_list (listdir w)
      in if pdf_files = [] then (Inr (False, []), [])
      else
       let temp_json_path = join (dirname excel_file_path) ''temp_pdf_list.json'';
           json_data = PdfListJson pdf_files (length pdf_files) pdf_directory_path
       in case open_temp_json w of
            Some e \<Rightarrow> (Inl e, [])
          | None \<Rightarrow>
         let written = [Wrote temp_json_path json_data]
         in case read_excel w of
              Inl e \<Rightarrow> (Inl e, written)
            | Inr sheet \<Rightarrow>
           let original_row_count = length sheet;
               keep = all_parts_to_keep pdf_files;
               df = map add_normalized sheet;
               missing = missing_parts (excel_part_numbers df) pdf_files;
               df_no_dupes = drop_duplicates Normalized_Part_No df;
               filtered_df = map drop_normalized (filter_rows keep df_no_dupes);
               filtered_row_count = length filtered_df;
               simplified_df = map (\<lambda>r. (PART_No r, DESCRIPTION r)) filtered_df;
               output_file = join (dirname excel_file_path)
                               (''FILTERED_'' @ basename excel_file_path)
           in case to_excel w of
                Some e \<Rightarrow> (Inl e, written)
              | None \<Rightarrow>
             let saved = written @ [Wrote output_file (Workbook simplified_df)]
             in case remove_temp w of
                  Some e \<Rightarrow> (Inl e, saved)
                | None \<Rightarrow>
               let cleaned = saved @ [Removed temp_json_path]
               in case percentage_kept filtered_row_count original_row_count of
                    Inl e \<Rightarrow> (Inl e, cleaned)
                  | Inr percentage \<Rightarrow> (Inr (True, missing), cleaned))"

definition filter_bom_with_pdf_list ::
  "world \<Rightarrow> string \<Rightarrow> string \<Rightarrow> (bool \<times> string list) \<times> fs_event list" where
  \<comment> \<open>\<open>except Exception\<close>: whatever the body raises becomes \<open>(False, [])\<close>\<close>
  "filter_bom_with_pdf_list w excel_file_path pdf_directory_path =
     (case filter_bom_body w excel_file_path pdf_directory_path of
        (Inl e, events) \<Rightarrow> ((False, []), events)
      | (Inr result, events) \<Rightarrow> (result, events))"

subsection \<open>Sample inputs\<close>

text \<open>
  The round-trip scenario of the specification: the directory holds \<open>VG-100.pdf\<close> and
  \<open>200.pdf\<close>, the sheet has the part numbers \<open>100\<close>, \<open>VG-200\<close> and \<open>300\<close>, and every
  file operation succeeds.
\<close>

definition scenario_listing :: "dir_entry list" where
  "scenario_listing = [(''VG-100.pdf'', True), (''200.pdf'', True)]"

definition scenario_sheet :: "bom_row list" where
  "scenario_sheet =
     [\<lparr>PART_No = Text ''100'', DESCRIPTION = Text ''bracket'', other_columns = []\<rparr>,
      \<lparr>PART_No = Text ''VG-200'', DESCRIPTION = Text ''flange'', other_columns = []\<rparr>,
      \<lparr>PART_No = Text ''300'', DESCRIPTION = Text ''gasket'', other_columns = []\<rparr>]"

definition scenario_world :: world where
  "scenario_world =
     \<lparr>listdir = Inr scenario_listing, open_temp_json = None,
      read_excel = Inr scenario_sheet, to_excel = None, remove_temp = None\<rparr>"


text \<open>A sheet with a header and no data row, beside a directory with one PDF.\<close>

definition header_only_world :: world where
  "header_only_world =
     \<lparr>listdir = Inr [(''A.pdf'', True)], open_temp_json = None,
      read_excel = Inr [], to_excel = None, remove_temp = None\<rparr>"

section \<open>Properties\<close>

subsection \<open>Normalisation\<close>

lemma rstrip_Cons:
  "\<not> P y \<Longrightarrow> rev (dropWhile P (rev (y # ys))) = y # rev (dropWhile P (rev ys))"
  by (simp add: dropWhile_append)

lemma dropWhile_rstrip:
  "dropWhile P (rev (dropWhile P (rev (dropWhile P xs)))) = rev (dropWhile P (rev (dropWhile P xs)))"
proof (cases "dropWhile P xs")
  case Nil
  show ?thesis unfolding Nil by simp
next
  case (Cons y ys)
  then have ny: "\<not> P y"
    by (metis hd_dropWhile list.sel(1) list.distinct(1))
  show ?thesis
    unfolding Cons rstrip_Cons [of P y ys, OF ny] using ny by simp
qed

lemma strip_idem: "strip (strip s) = strip s"
  unfolding strip_def by (simp add: dropWhile_rstrip)

lemma set_strip: "set (strip s) \<subseteq> set s"
proof -
  have "set (strip s) \<subseteq> set (dropWhile isspace s)"
    unfolding strip_def using set_dropWhileD by fastforce
  also have "\<dots> \<subseteq> set s"
    using set_dropWhileD by fastforce
  finally show ?thesis .
qed

lemma strip_hd: "strip s \<noteq> [] \<Longrightarrow> \<not> isspace (hd (strip s))"
proof -
  assume ne: "strip s \<noteq> []"
  have "dropWhile isspace (strip s) = strip s"
    unfolding strip_def by (rule dropWhile_rstrip)
  then show ?thesis
    using ne by (metis dropWhile_eq_self_iff)
qed

lemma strip_last: "strip s \<noteq> [] \<Longrightarrow> \<not> isspace (last (strip s))"
proof -
  assume ne: "strip s \<noteq> []"
  let ?t = "dropWhile isspace (rev (dropWhile isspace s))"
  have t: "?t \<noteq> []" using ne by (simp add: strip_def)
  then have "\<not> isspace (hd ?t)"
    by (rule hd_dropWhile)
  moreover have "last (strip s) = hd ?t"
    unfolding strip_def using t by (simp add: last_rev)
  ultimately show ?thesis by simp
qed

lemma normalize_no_breaks:
  "CR \<notin> set (normalize_part_number x) \<and> LF \<notin> set (normalize_part_number x)"
proof (cases x)
  case NaN
  then show ?thesis by simp
next
  case (Text s)
  have "set (normalize_part_number x) \<subseteq> set (replace_char LF (replace_char CR s))"
    unfolding Text by (simp add: set_strip)
  then show ?thesis
    by (auto simp: replace_char_def)
qed

lemma replace_char_absent: "c \<notin> set s \<Longrightarrow> replace_char c s = s"
  by (auto simp: replace_char_def filter_id_conv)

lemma normalize_idem:
  "normalize_part_number (Text (normalize_part_number x)) = normalize_part_number x"
proof (cases x)
  case NaN
  then show ?thesis by (simp add: strip_def replace_char_def)
next
  case (Text s)
  have nb: "CR \<notin> set (normalize_part_number x)" "LF \<notin> set (normalize_part_number x)"
    using normalize_no_breaks by simp_all
  have "normalize_part_number (Text (normalize_part_number x)) = strip (normalize_part_number x)"
    by (simp add: replace_char_absent nb)
  also have "\<dots> = normalize_part_number x"
    unfolding Text by (simp add: strip_idem)
  finally show ?thesis .
qed

text \<open>
  Claim C7. \<open>normalize_part_number\<close> maps a missing value to the empty string; on any
  other value it removes every carriage return and every newline and then trims the
  whitespace at both ends, so the result holds neither character and neither starts nor
  ends with whitespace; and normalising a normalised key changes nothing.
\<close>

theorem normalize_part_number_spec:
  "normalize_part_number NaN = []
   \<and> normalize_part_number (Text s) = strip (filter (\<lambda>c. c \<noteq> CR \<and> c \<noteq> LF) s)
   \<and> CR \<notin> set (normalize_part_number x) \<and> LF \<notin> set (normalize_part_number x)
   \<and> (normalize_part_number x = []
        \<or> (\<not> isspace (hd (normalize_part_number x))
           \<and> \<not> isspace (last (normalize_part_number x))))
   \<and> normalize_part_number (Text (normalize_part_number x)) = normalize_part_number x"
proof -
  have a: "normalize_part_number (Text s) = strip (filter (\<lambda>c. c \<noteq> CR \<and> c \<noteq> LF) s)"
    by (simp add: replace_char_def conj_commute)
  have b: "normalize_part_number x = []
        \<or> (\<not> isspace (hd (normalize_part_number x))
           \<and> \<not> isspace (last (normalize_part_number x)))"
  proof (cases x)
    case NaN
    then show ?thesis by simp
  next
    case (Text t)
    show ?thesis unfolding Text using strip_hd strip_last by auto
  qed
  show ?thesis
    using a b normalize_no_breaks [of x] normalize_idem [of x] by simp
qed

text \<open>The key of a cell with a leading space, both line breaks and a trailing tab.\<close>

theorem normalize_part_number_spec_witness:
  "normalize_part_number (Text [CHR 0x20, CHR ''A'', CHR 0x0D, CHR ''B'', CHR 0x0A, CHR 0x09]) = ''AB''
   \<and> normalize_part_number (Text ''AB'') = ''AB''"
proof -
  let ?x = "Text [CHR 0x20, CHR ''A'', CHR 0x0D, CHR ''B'', CHR 0x0A, CHR 0x09]"
  have e: "normalize_part_number ?x = ''AB''"
    by code_simp
  have "normalize_part_number (Text (normalize_part_number ?x)) = normalize_part_number ?x"
    using normalize_part_number_spec [of "[]" ?x] by blast
  then have "normalize_part_number (Text ''AB'') = ''AB''"
    unfolding e .
  with e show ?thesis by (rule conjI)
qed

subsection \<open>Filtering\<close>

lemma keep_part_loop_member:
  "keep_part_loop part_no keep \<longleftrightarrow>
     part_no \<in> set keep \<or> (startswith part_no ''VG-'' \<and> drop 3 part_no \<in> set keep)"
  by (induction keep) auto

text \<open>
  Claim C4. A row passes \<open>should_keep_row\<close> exactly when its normalised key is not empty
  and either the key is in the keep set, or the key starts with \<open>VG-\<close> and the key
  without these three characters is in the keep set. The filtered frame holds exactly
  the rows that pass, and is a subsequence of the frame it was taken from.
\<close>

theorem should_keep_row_rule:
  "(should_keep_row keep row \<longleftrightarrow>
      Normalized_Part_No row \<noteq> []
      \<and> (Normalized_Part_No row \<in> set keep
         \<or> (startswith (Normalized_Part_No row) ''VG-''
            \<and> drop 3 (Normalized_Part_No row) \<in> set keep)))
   \<and> (row \<in> set (filter_rows keep df) \<longleftrightarrow> row \<in> set df \<and> should_keep_row keep row)
   \<and> subseq (filter_rows keep df) df"
  by (auto simp: should_keep_row_def filter_rows_def keep_part_loop_member Let_def)

text \<open>The scenario: \<open>100\<close> and \<open>VG-200\<close> stay, \<open>300\<close> goes.\<close>

theorem should_keep_row_rule_witness:
  "filter_rows [''VG-100'', ''100'', ''200'', ''VG-200''] (map add_normalized scenario_sheet) =
     [add_normalized \<lparr>PART_No = Text ''100'', DESCRIPTION = Text ''bracket'', other_columns = []\<rparr>,
      add_normalized \<lparr>PART_No = Text ''VG-200'', DESCRIPTION = Text ''flange'', other_columns = []\<rparr>]
   \<and> subseq (filter_rows [''VG-100'', ''100'', ''200'', ''VG-200''] (map add_normalized scenario_sheet))
        (map add_normalized scenario_sheet)"
proof -
  have e: "filter_rows [''VG-100'', ''100'', ''200'', ''VG-200''] (map add_normalized scenario_sheet) =
     [add_normalized \<lparr>PART_No = Text ''100'', DESCRIPTION = Text ''bracket'', other_columns = []\<rparr>,
      add_normalized \<lparr>PART_No = Text ''VG-200'', DESCRIPTION = Text ''flange'', other_columns = []\<rparr>]"
    by code_simp
  have "subseq (filter_rows [''VG-100'', ''100'', ''200'', ''VG-200''] (map add_normalized scenario_sheet))
        (map add_normalized scenario_sheet)"
    using should_keep_row_rule [of "[''VG-100'', ''100'', ''200'', ''VG-200'']"
        "add_normalized \<lparr>PART_No = Text ''300'', DESCRIPTION = Text ''gasket'', other_columns = []\<rparr>"
        "map add_normalized scenario_sheet"] by blast
  with e show ?thesis by (rule conjI)
qed

subsection \<open>The keep set\<close>

lemma set_set_add: "set (set_add x s) = insert x (set s)"
  by (auto simp: set_add_def)

lemma distinct_set_add: "distinct s \<Longrightarrow> distinct (set_add x s)"
  by (simp add: set_add_def)

lemma set_keep_loop:
  "set (keep_loop parts keep) =
     set keep \<union> set parts
     \<union> (\<lambda>x. if startswith x ''VG-'' then drop 3 x else ''VG-'' @ x) ` set parts"
  by (induction parts arbitrary: keep) (auto simp: set_set_add Let_def)

lemma distinct_keep_loop: "distinct keep \<Longrightarrow> distinct (keep_loop parts keep)"
  by (induction parts arbitrary: keep) (simp_all add: distinct_set_add Let_def)

lemma toggled_image:
  "(\<lambda>x. if startswith x ''VG-'' then drop 3 x else ''VG-'' @ x) ` A =
     {drop 3 x |x. x \<in> A \<and> startswith x ''VG-''} \<union> {''VG-'' @ x |x. x \<in> A \<and> \<not> startswith x ''VG-''}"
  by (auto simp: image_iff) 

text \<open>
  Claim C5. The keep set holds every identifier and, for each identifier, its toggled
  form (the identifier without \<open>VG-\<close> when it starts with \<open>VG-\<close>, and \<open>VG-\<close> followed by
  the identifier otherwise), and nothing else. It has at least as many elements as there
  are distinct identifiers and at most twice as many, hence at most twice the number of
  identifiers.
\<close>

theorem all_parts_to_keep_spec:
  "distinct (all_parts_to_keep pdf_files)
   \<and> set (all_parts_to_keep pdf_files) =
       set pdf_files
       \<union> {drop 3 x |x. x \<in> set pdf_files \<and> startswith x ''VG-''}
       \<union> {''VG-'' @ x |x. x \<in> set pdf_files \<and> \<not> startswith x ''VG-''}
   \<and> card (set pdf_files) \<le> card (set (all_parts_to_keep pdf_files))
   \<and> card (set (all_parts_to_keep pdf_files)) \<le> 2 * card (set pdf_files)
   \<and> card (set (all_parts_to_keep pdf_files)) \<le> 2 * length pdf_files"
proof -
  let ?f = "\<lambda>x. if startswith x ''VG-'' then drop 3 x else ''VG-'' @ x"
  let ?K = "set (all_parts_to_keep pdf_files)"
  have K: "?K = set pdf_files \<union> ?f ` set pdf_files"
    by (simp add: all_parts_to_keep_def set_keep_loop)
  have d: "distinct (all_parts_to_keep pdf_files)"
    by (simp add: all_parts_to_keep_def distinct_keep_loop)
  have s: "?K = set pdf_files
       \<union> {drop 3 x |x. x \<in> set pdf_files \<and> startswith x ''VG-''}
       \<union> {''VG-'' @ x |x. x \<in> set pdf_files \<and> \<not> startswith x ''VG-''}"
    unfolding K toggled_image by (simp add: Un_assoc)
  have lo: "card (set pdf_files) \<le> card ?K"
    unfolding K by (rule card_mono) simp_all
  have "card ?K \<le> card (set pdf_files) + card (?f ` set pdf_files)"
    unfolding K by (rule card_Un_le)
  also have "\<dots> \<le> card (set pdf_files) + card (set pdf_files)"
    by (intro add_left_mono card_image_le) simp
  finally have hi: "card ?K \<le> 2 * card (set pdf_files)"
    by simp
  have "card (set pdf_files) \<le> length pdf_files"
    by (rule card_length)
  with hi have hi': "card ?K \<le> 2 * length pdf_files"
    by simp
  from d s lo hi hi' show ?thesis by blast
qed

text \<open>The scenario's two identifiers give four keys.\<close>

theorem all_parts_to_keep_spec_witness:
  "all_parts_to_keep [''VG-100'', ''200''] = [''VG-100'', ''100'', ''200'', ''VG-200'']
   \<and> card (set [''VG-100'', ''200'']) \<le> card (set (all_parts_to_keep [''VG-100'', ''200'']))
   \<and> card (set (all_parts_to_keep [''VG-100'', ''200''])) \<le> 2 * length [''VG-100'', ''200'']"
proof -
  have e: "all_parts_to_keep [''VG-100'', ''200''] = [''VG-100'', ''100'', ''200'', ''VG-200'']"
    by code_simp
  have "card (set [''VG-100'', ''200'']) \<le> card (set (all_parts_to_keep [''VG-100'', ''200'']))
     \<and> card (set (all_parts_to_keep [''VG-100'', ''200''])) \<le> 2 * length [''VG-100'', ''200'']"
    using all_parts_to_keep_spec [of "[''VG-100'', ''200'']"] by blast
  with e show ?thesis by (rule conjI)
qed

subsection \<open>Removing duplicates\<close>







subsection \<open>The run\<close>

text \<open>
  Claim C9. When the listing gives no identifier (the directory has no PDF file, or it
  could not be read), the run returns failure with an empty list of missing parts and
  performs no file operation: neither the temporary file nor the output sheet is
  written.
\<close>

theorem no_pdf_files_fails:
  "get_pdf_file_list (listdir w) = [] \<Longrightarrow>
     filter_bom_with_pdf_list w excel_file_path pdf_directory_path = ((False, []), [])"
  by (simp add: filter_bom_with_pdf_list_def filter_bom_body_def)

text \<open>A directory that holds a subdirectory and a text file only.\<close>

theorem no_pdf_files_fails_witness:
  "get_pdf_file_list (listdir (header_only_world\<lparr>listdir := Inr [(''drawings'', False), (''notes.txt'', True)]\<rparr>)) = []
   \<and> filter_bom_with_pdf_list
       (header_only_world\<lparr>listdir := Inr [(''drawings'', False), (''notes.txt'', True)]\<rparr>)
       ''/data/bom.xlsx'' ''/data/pdfs'' = ((False, []), [])"
proof -
  let ?w = "header_only_world\<lparr>listdir := Inr [(''drawings'', False), (''notes.txt'', True)]\<rparr>"
  have e: "get_pdf_file_list (listdir ?w) = []"
    by code_simp
  from e no_pdf_files_fails [OF e, of "''/data/bom.xlsx''" "''/data/pdfs''"]
  show ?thesis by (rule conjI)
qed

text \<open>
  Claim C10. A failure of the run does not mean that nothing was written. When there is
  at least one PDF, the sheet has no data row and every file operation succeeds, the run
  writes the temporary file, writes the \<open>FILTERED_\<close> sheet (with no row), removes the
  temporary file, and only then returns failure with an empty list of missing parts.
\<close>

theorem empty_sheet_written_then_fails:
  assumes "get_pdf_file_list (listdir w) \<noteq> []"
    and "open_temp_json w = None" and "read_excel w = Inr []"
    and "to_excel w = None" and "remove_temp w = None"
  shows "filter_bom_with_pdf_list w excel_file_path pdf_directory_path =
    ((False, []),
     [Wrote (join (dirname excel_file_path) ''temp_pdf_list.json'')
        (PdfListJson (get_pdf_file_list (listdir w)) (length (get_pdf_file_list (listdir w)))
           pdf_directory_path),
      Wrote (join (dirname excel_file_path) (''FILTERED_'' @ basename excel_file_path))
        (Workbook []),
      Removed (join (dirname excel_file_path) ''temp_pdf_list.json'')])"
  using assms
  by (simp add: filter_bom_with_pdf_list_def filter_bom_body_def Let_def percentage_kept_def
      drop_duplicates_def filter_rows_def)

text \<open>One PDF beside a sheet that has only its header.\<close>

theorem empty_sheet_written_then_fails_witness:
  "filter_bom_with_pdf_list header_only_world ''/data/bom.xlsx'' ''/data/pdfs'' =
    ((False, []),
     [Wrote ''/data/temp_pdf_list.json'' (PdfListJson [''A''] 1 ''/data/pdfs''),
      Wrote ''/data/FILTERED_bom.xlsx'' (Workbook []),
      Removed ''/data/temp_pdf_list.json''])"
proof -
  have l: "get_pdf_file_list (listdir header_only_world) = [''A'']"
    by code_simp
  have p: "join (dirname ''/data/bom.xlsx'') ''temp_pdf_list.json'' = ''/data/temp_pdf_list.json''"
    "join (dirname ''/data/bom.xlsx'') (''FILTERED_'' @ basename ''/data/bom.xlsx'') = ''/data/FILTERED_bom.xlsx''"
    by code_simp+
  have "get_pdf_file_list (listdir header_only_world) \<noteq> []"
    unfolding l by simp
  from empty_sheet_written_then_fails [OF this, of "''/data/bom.xlsx''" "''/data/pdfs''"]
  show ?thesis
    unfolding l p by (simp add: header_only_world_def)
qed

subsection \<open>Where the program departs from its description\<close>

text \<open>
  What the condition of lines 108 to 112 amounts to: an identifier without the prefix is
  missing when it is not a key itself; an identifier with the prefix is missing when
  neither it, nor its stripped form, nor its doubly prefixed form is a key.
\<close>

lemma is_missing_as_written:
  "is_missing excel part \<longleftrightarrow>
     (if startswith part ''VG-''
      then part \<notin> excel \<and> drop 3 part \<notin> excel \<and> (''VG-'' @ part) \<notin> excel
      else part \<notin> excel)"
  by (auto simp: is_missing_def)

text \<open>
  Claim C1. The third conjunct of the condition at lines 108 to 112 tests
  \<open>not part.startswith('VG-')\<close> where the comment above it asks for the opposite test,
  so an identifier without the prefix is reported missing whenever it is not itself a
  key of the sheet: here \<open>200\<close> is reported although the sheet has \<open>VG-200\<close>.
\<close>

theorem missing_parts_unprefixed:
  "missing_parts {''VG-200''} [''200''] = [''200'']
   \<and> \<not> startswith ''200'' ''VG-''
   \<and> ''VG-'' @ ''200'' \<in> {''VG-200''}"
  by code_simp

text \<open>
  Claim C2. In the round-trip scenario the run keeps the rows \<open>100\<close> and \<open>VG-200\<close> and
  drops \<open>300\<close>, and it succeeds; but it reports \<open>200\<close> as missing, by the condition of
  claim C1, where the scenario expects no missing identifier.
\<close>

theorem round_trip_scenario_run:
  "filter_bom_with_pdf_list scenario_world ''/data/bom.xlsx'' ''/data/pdfs'' =
   ((True, [''200'']),
    [Wrote ''/data/temp_pdf_list.json'' (PdfListJson [''VG-100'', ''200''] 2 ''/data/pdfs''),
     Wrote ''/data/FILTERED_bom.xlsx''
       (Workbook [(Text ''100'', Text ''bracket''), (Text ''VG-200'', Text ''flange'')]),
     Removed ''/data/temp_pdf_list.json''])"
  by code_simp

text \<open>
  Claim C3. Nothing guards the division of the summary. With a sheet that has no data
  row, \<open>original_row_count\<close> is zero when the division is reached, after the output sheet
  has been written, and the body of the \<open>try\<close> raises \<open>ZeroDivisionError\<close>.
\<close>

theorem header_only_division_raises:
  "filter_bom_body header_only_world ''/data/bom.xlsx'' ''/data/pdfs'' =
    (Inl ZeroDivisionError,
     [Wrote ''/data/temp_pdf_list.json'' (PdfListJson [''A''] 1 ''/data/pdfs''),
      Wrote ''/data/FILTERED_bom.xlsx'' (Workbook []),
      Removed ''/data/temp_pdf_list.json''])"
  by code_simp

subsection \<open>Listing the PDF files\<close>

lemma lower_char_dot: "lower_char c = CHR ''.'' \<Longrightarrow> c = CHR ''.''"
proof -
  assume a: "lower_char c = CHR ''.''"
  let ?n = "of_char c :: nat"
  show ?thesis
  proof (cases "(65 \<le> ?n \<and> ?n \<le> 90) \<or> (192 \<le> ?n \<and> ?n \<le> 222 \<and> ?n \<noteq> 215)")
    case True
    then have "char_of (?n + 32) = CHR ''.''"
      using a by (simp add: lower_char_def Let_def)
    then have "(of_char (char_of (?n + 32) :: char) :: nat) = of_char (CHR ''.'')"
      by simp
    then have m: "(?n + 32) mod 256 = 46"
      by simp
    from True have "?n + 32 < 256" "65 \<le> ?n"
      by auto
    with m have False by simp
    then show ?thesis ..
  next
    case False
    have "lower_char c = c"
      unfolding lower_char_def Let_def by (rule if_not_P) (rule False)
    with a show ?thesis by simp
  qed
qed

lemma lower_char_of_dot: "lower_char (CHR ''.'') = CHR ''.''"
  by code_simp


lemma pdf_suffix_shape:
  assumes "endswith (lower n) ''.pdf''"
  obtains c2 c3 c4 where
    "n = take (length n - 4) n @ [CHR ''.'', c2, c3, c4]"
    "c2 \<noteq> CHR ''.''" "c3 \<noteq> CHR ''.''" "c4 \<noteq> CHR ''.''"
proof -
  have four: "length ''.pdf'' = 4" by simp
  from assms have low: "map lower_char (drop (length n - 4) n) = ''.pdf''"
    unfolding endswith_def lower_def four by (simp only: drop_map length_map)
  from low obtain c1 c2 c3 c4 where tl: "drop (length n - 4) n = [c1, c2, c3, c4]"
    and l: "lower_char c1 = CHR ''.''" "lower_char c2 = CHR ''p''"
           "lower_char c3 = CHR ''d''" "lower_char c4 = CHR ''f''"
    by (auto simp: map_eq_Cons_conv)
  have c1: "c1 = CHR ''.''"
    using l(1) by (rule lower_char_dot)
  have ne: "c2 \<noteq> CHR ''.''" "c3 \<noteq> CHR ''.''" "c4 \<noteq> CHR ''.''"
    using l lower_char_of_dot by auto
  have "n = take (length n - 4) n @ drop (length n - 4) n"
    by simp
  then have "n = take (length n - 4) n @ [CHR ''.'', c2, c3, c4]"
    unfolding tl c1 .
  with ne show ?thesis using that by blast
qed

lemma splitext_loop_eq:
  "splitext_loop p d i =
     (if \<exists>j. i \<le> j \<and> j < d \<and> take 1 (drop j p) \<noteq> [extsep]
      then (take d p, drop d p) else (p, []))"
proof (induction p d i rule: splitext_loop.induct)
  case (1 p d i)
  show ?case
  proof (cases "i < d")
    case False
    then show ?thesis by (subst splitext_loop.simps) auto
  next
    case lt: True
    show ?thesis
    proof (cases "take 1 (drop i p) \<noteq> [extsep]")
      case True
      with lt have "\<exists>j. i \<le> j \<and> j < d \<and> take 1 (drop j p) \<noteq> [extsep]"
        by blast
      with lt True show ?thesis by (subst splitext_loop.simps) simp
    next
      case False
      then have dot: "take 1 (drop i p) = [extsep]" by simp
      have "(\<exists>j. i \<le> j \<and> j < d \<and> take 1 (drop j p) \<noteq> [extsep])
            \<longleftrightarrow> (\<exists>j. i + 1 \<le> j \<and> j < d \<and> take 1 (drop j p) \<noteq> [extsep])"
        using dot by (metis Suc_eq_plus1 Suc_leI le_neq_implies_less add_leD1)
      with 1 [OF lt] dot lt show ?thesis
        by (subst splitext_loop.simps) simp
    qed
  qed
qed



lemma rfind_absent: "c \<notin> set p \<Longrightarrow> rfind p c = -1"
proof -
  assume "c \<notin> set p"
  then have "\<forall>d \<in> set (rev p). d \<noteq> c"
    by auto
  then have "takeWhile (\<lambda>d. d \<noteq> c) (rev p) = rev p"
    by (rule takeWhile_eq_all_conv [THEN iffD2])
  then have "length (takeWhile (\<lambda>d. d \<noteq> c) (rev p)) = length p"
    by (metis length_rev)
  then show ?thesis unfolding rfind_def by simp
qed

lemma rfind_pdf_dot:
  assumes "c2 \<noteq> CHR ''.''" "c3 \<noteq> CHR ''.''" "c4 \<noteq> CHR ''.''"
  shows "rfind (stem @ [CHR ''.'', c2, c3, c4]) extsep = int (length stem)"
  using assms by (simp add: rfind_def extsep_def)


lemma leading_dots_iff:
  assumes "d \<le> length p"
  shows "(\<exists>j. 0 \<le> j \<and> j < d \<and> take 1 (drop j p) \<noteq> [extsep]) \<longleftrightarrow> \<not> set (take d p) \<subseteq> {extsep}"
proof -
  have one: "take 1 (drop j p) = [p ! j]" if "j < d" for j
  proof -
    from that assms have "j < length p" by simp
    then have "drop j p = p ! j # drop (Suc j) p"
      by (rule Cons_nth_drop_Suc [symmetric])
    then show ?thesis by simp
  qed
  have nth: "take d p ! j = p ! j" if "j < d" for j
    using that by simp
  have len: "length (take d p) = d"
    using assms by simp
  show ?thesis
  proof
    assume "\<exists>j. 0 \<le> j \<and> j < d \<and> take 1 (drop j p) \<noteq> [extsep]"
    then obtain j where j: "j < d" "take 1 (drop j p) \<noteq> [extsep]"
      by blast
    then have "p ! j \<noteq> extsep"
      using one [OF j(1)] by simp
    moreover have "p ! j \<in> set (take d p)"
      using j(1) len nth [OF j(1)] by (metis nth_mem)
    ultimately show "\<not> set (take d p) \<subseteq> {extsep}"
      by blast
  next
    assume "\<not> set (take d p) \<subseteq> {extsep}"
    then obtain c where c: "c \<in> set (take d p)" "c \<noteq> extsep"
      by blast
    then obtain j where j: "j < length (take d p)" "take d p ! j = c"
      by (metis in_set_conv_nth)
    then have jd: "j < d" using len by simp
    have "p ! j \<noteq> extsep"
      using j(2) c(2) nth [OF jd] by simp
    then have "take 1 (drop j p) \<noteq> [extsep]"
      using one [OF jd] by simp
    with jd show "\<exists>j. 0 \<le> j \<and> j < d \<and> take 1 (drop j p) \<noteq> [extsep]"
      by blast
  qed
qed


lemma splitext_pdf:
  assumes "endswith (lower n) ''.pdf''" and "sep \<notin> set n"
  shows "fst (splitext n) =
           (if set (take (length n - 4) n) \<subseteq> {CHR ''.''} then n else take (length n - 4) n)"
proof -
  define stem where "stem = take (length n - 4) n"
  from assms(1) obtain c2 c3 c4 where
    n: "n = stem @ [CHR ''.'', c2, c3, c4]"
    and c: "c2 \<noteq> CHR ''.''" "c3 \<noteq> CHR ''.''" "c4 \<noteq> CHR ''.''"
    unfolding stem_def by (rule pdf_suffix_shape)
  have dot: "rfind n extsep = int (length stem)"
    using rfind_pdf_dot [OF c, of stem] n by simp
  have sl: "rfind n sep = -1"
    using assms(2) by (rule rfind_absent)
  have le: "length stem \<le> length n"
    by (simp add: stem_def)
  have tk: "take (length stem) n = stem"
    by (subst n) simp
  have "splitext n = splitext_loop n (length stem) 0"
    unfolding splitext_def dot sl Let_def by simp
  also have "\<dots> = (if \<not> set stem \<subseteq> {extsep} then (stem, drop (length stem) n) else (n, []))"
    unfolding splitext_loop_eq leading_dots_iff [OF le] tk by simp
  finally have "fst (splitext n) = (if set stem \<subseteq> {extsep} then n else stem)"
    by simp
  then show ?thesis
    unfolding stem_def extsep_def .
qed


lemma pdf_loop_step:
  assumes "sep \<notin> set n"
  shows "pdf_loop ((n, f) # items) =
     (if f \<and> endswith (lower n) ''.pdf''
      then (if set (take (length n - 4) n) \<subseteq> {CHR ''.''} then n else take (length n - 4) n)
             # pdf_loop items
      else pdf_loop items)"
proof (cases "f \<and> endswith (lower n) ''.pdf''")
  case True
  then have e: "endswith (lower n) ''.pdf''" by simp
  show ?thesis
    unfolding pdf_loop.simps splitext_pdf [OF e assms] ..
next
  case False
  then show ?thesis by (simp only: pdf_loop.simps if_False)
qed

text \<open>
  What \<open>get_pdf_file_list\<close> computes. For a listing whose names hold no path separator
  (as the names of directory entries do) it returns, in the order of the listing, one
  identifier for each entry that is a regular file and whose name ends in \<open>.pdf\<close>
  whatever the case of the letters; entries that are not regular files, subdirectories
  among them, give none. The identifier is the name without its last four characters,
  except when nothing but dots stands before the suffix: \<open>os.path.splitext\<close> finds no
  extension in such a name and the name is appended whole.
\<close>

lemma get_pdf_file_list_as_written:
  assumes "\<forall>(n, f) \<in> set items. sep \<notin> set n"
  shows "get_pdf_file_list (Inr items) =
     map (\<lambda>(n, f). if set (take (length n - 4) n) \<subseteq> {CHR ''.''} then n
                    else take (length n - 4) n)
       (filter (\<lambda>(n, f). f \<and> endswith (lower n) ''.pdf'') items)"
  using assms
proof (induction items)
  case Nil
  show ?case by simp
next
  case (Cons a items)
  obtain n f where a: "a = (n, f)" by (cases a)
  from Cons.prems have n: "sep \<notin> set n" and rest: "\<forall>(n, f) \<in> set items. sep \<notin> set n"
    by (auto simp: a)
  have ih: "pdf_loop items =
     map (\<lambda>(n, f). if set (take (length n - 4) n) \<subseteq> {CHR ''.''} then n
                    else take (length n - 4) n)
       (filter (\<lambda>(n, f). f \<and> endswith (lower n) ''.pdf'') items)"
    using Cons.IH [OF rest] by simp
  show ?case
    unfolding a get_pdf_file_list.simps pdf_loop_step [OF n] ih
    by (cases "f \<and> endswith (lower n) ''.pdf''") simp_all
qed

text \<open>
  A listing with an upper-case suffix, a subdirectory named like a PDF, another kind of
  file, the file \<open>.pdf\<close> and a name with two dots.
\<close>

lemma get_pdf_file_list_as_written_example:
  "get_pdf_file_list
     (Inr [(''VG-100.PDF'', True), (''drawings.pdf'', False), (''notes.txt'', True),
           (''.pdf'', True), (''rev.2.pdf'', True)])
   = [''VG-100'', ''.pdf'', ''rev.2'']"
proof -
  let ?items = "[(''VG-100.PDF'', True), (''drawings.pdf'', False), (''notes.txt'', True),
           (''.pdf'', True), (''rev.2.pdf'', True)]"
  have h: "\<forall>(n, f) \<in> set ?items. sep \<notin> set n"
    by code_simp
  have e: "map (\<lambda>(n, f). if set (take (length n - 4) n) \<subseteq> {CHR ''.''} then n
                    else take (length n - 4) n)
       (filter (\<lambda>(n, f). f \<and> endswith (lower n) ''.pdf'') ?items) = [''VG-100'', ''.pdf'', ''rev.2'']"
    by code_simp
  show ?thesis
    using get_pdf_file_list_as_written [OF h] unfolding e .
qed

text \<open>
  Claim C8: every regular file whose name ends in \<open>.pdf\<close>, in any case, is emitted with
  that suffix removed. The code does not do so for the regular file \<open>.pdf\<close>. The name
  passes the test of line 23 (\<open>item.lower().endswith\<close> of \<open>.pdf\<close>), and with the suffix
  removed it is the empty string; but line 25 takes \<open>os.path.splitext(item)[0]\<close>, which
  is the whole name, so the identifier appended is \<open>.pdf\<close>. The comment above that line
  (\<open>Remove the .pdf extension and add to list\<close>) and the docstring (\<open>List of filenames
  without .pdf extension\<close>) say what the claim says, and a sibling such as \<open>a.pdf\<close>
  does lose its suffix.
\<close>

theorem get_pdf_file_list_dot_pdf:
  "get_pdf_file_list (Inr [(''.pdf'', True)]) = [''.pdf'']
   \<and> endswith (lower ''.pdf'') ''.pdf''
   \<and> take (length ''.pdf'' - 4) ''.pdf'' = []
   \<and> get_pdf_file_list (Inr [(''a.pdf'', True)]) = [''a'']"
  by code_simp

end
